theory Spec2Isabelle
  imports Complex_Main
begin

section \<open>Data model\<close>

text \<open>
  The item-by-tag matrix is a pandas DataFrame. It is modelled by its columns in their
  order: each column is its name and its values, one per row (rows are addressed by
  position, as \<^verbatim>\<open>range(len(sourcedata))\<close> does in the source). Cell values are integers
  (presence flags or counts), so every column has the same dtype.
\<close>

type_synonym series = "int list"
type_synonym dataframe = "(string \<times> series) list"
type_synonym pair = "string \<times> string"

definition columns :: "dataframe \<Rightarrow> string list" where
  "columns df = map fst df"

text \<open>\<^verbatim>\<open>df[name]\<close> for a name that is among \<^verbatim>\<open>df.columns\<close>; every use below is guarded
  by that membership test or takes the name from \<^verbatim>\<open>df.columns\<close>, so the KeyError of a
  missing name is never reached.\<close>

definition column_data :: "dataframe \<Rightarrow> string \<Rightarrow> series" where
  "column_data df name = (case map_of df name of Some d \<Rightarrow> d | None \<Rightarrow> [])"

text \<open>\<^verbatim>\<open>df[name] = data\<close>: an existing column keeps its position, a new one is appended.\<close>

definition set_column :: "string \<Rightarrow> series \<Rightarrow> dataframe \<Rightarrow> dataframe" where
  "set_column name data df =
     (if name \<in> set (columns df)
      then map (\<lambda>(c, d). if c = name then (c, data) else (c, d)) df
      else df @ [(name, data)])"

text \<open>\<^verbatim>\<open>df.drop(columns=names)\<close> on names that are present.\<close>

definition drop_columns :: "string list \<Rightarrow> dataframe \<Rightarrow> dataframe" where
  "drop_columns names df = filter (\<lambda>(c, d). c \<notin> set names) df"

text \<open>A well-formed frame: unique column names, all columns over the same rows.\<close>

definition nrows :: "dataframe \<Rightarrow> nat" where
  "nrows df = (case df of [] \<Rightarrow> 0 | (c, d) # rest \<Rightarrow> length d)"

definition wf_frame :: "dataframe \<Rightarrow> bool" where
  "wf_frame df = (distinct (columns df) \<and> list_all (\<lambda>(c, d). length d = nrows df) df)"

section \<open>Matrix merger: \<^verbatim>\<open>deduplicate_dataframe\<close>\<close>

text \<open>
  The strict loop of the source,
  \<^verbatim>\<open>for i in range(len(sourcedata)): if sourcedata[i] > 0: sinkdata[i] = sourcedata[i]\<close>.
\<close>

definition strict_overwrite :: "series \<Rightarrow> series \<Rightarrow> series" where
  "strict_overwrite sourcedata sinkdata =
     fold (\<lambda>i snk. if sourcedata ! i > 0 then snk[i := sourcedata ! i] else snk)
       [0..<length sourcedata] sinkdata"

text \<open>One pass of the loop body over \<^verbatim>\<open>pairs_list\<close>, on the working copy. The source
  tests \<^verbatim>\<open>source not in columns or sink not in columns\<close> and continues; the branches are
  written here in the other order.\<close>

definition merge_pair :: "string \<Rightarrow> dataframe \<Rightarrow> pair \<Rightarrow> dataframe" where
  "merge_pair mode deduplicated_dataframe p =
     (case p of (source, sink) \<Rightarrow>
        if source \<in> set (columns deduplicated_dataframe) \<and> sink \<in> set (columns deduplicated_dataframe)
        then
          let sourcedata = column_data deduplicated_dataframe source;
              sinkdata = column_data deduplicated_dataframe sink;
              df1 = (if mode = ''strict''
                     then drop_columns [source]
                            (set_column sink (strict_overwrite sourcedata sinkdata) deduplicated_dataframe)
                     else deduplicated_dataframe);
              df2 = (if mode = ''lenient''
                     then (if sourcedata = sinkdata then drop_columns [source] df1 else df1)
                     else df1)
          in df2
        else deduplicated_dataframe)"

text \<open>The function works on \<^verbatim>\<open>dataframe.copy()\<close> and returns the copy: the argument is
  never written, so the model is a function from the frame to the result.\<close>

definition deduplicate_dataframe :: "dataframe \<Rightarrow> pair list \<Rightarrow> string \<Rightarrow> dataframe" where
  "deduplicate_dataframe dataframe pairs_list mode =
     fold (\<lambda>p df. merge_pair mode df p) pairs_list dataframe"

section \<open>Column filter\<close>

text \<open>
  \<^verbatim>\<open>drop_0_columns\<close> changes the frame it is given (\<^verbatim>\<open>inplace=True\<close>) and returns that same
  object, while \<^verbatim>\<open>drop_unique_columns\<close> works on \<^verbatim>\<open>Dataframe.copy()\<close>. To tell the two
  apart the frames live in a store: a reference is an index into the list of allocated
  frames, and a copy allocates a new one at the end.
\<close>

type_synonym ref = nat
type_synonym heap = "dataframe list"

definition copy_frame :: "heap \<Rightarrow> ref \<Rightarrow> heap \<times> ref" where
  "copy_frame h r = (h @ [h ! r], length h)"

text \<open>\<^verbatim>\<open>counts.sort(key=lambda x: x[1], reverse=True)\<close>: a stable sort, largest count first,
  equal counts in their original order.\<close>

definition sort_counts_desc :: "(string \<times> int) list \<Rightarrow> (string \<times> int) list" where
  "sort_counts_desc counts = rev (sort_key snd (rev counts))"

definition count_tag_occurrence :: "dataframe \<Rightarrow> (string \<times> int) list" where
  "count_tag_occurrence dataframe =
     (let binary_columns = drop 1 (columns dataframe);
          counts = concat (map (\<lambda>column.
                      let count = sum_list (column_data dataframe column)
                      in if count > 0 then [(column, count)] else []) binary_columns)
      in sort_counts_desc counts)"

text \<open>\<^verbatim>\<open>dataframe.columns[(dataframe == 0).all()]\<close>: the names of the columns whose every
  value is zero.\<close>

definition zero_columns_of :: "dataframe \<Rightarrow> string list" where
  "zero_columns_of dataframe = map fst (filter (\<lambda>(c, d). list_all (\<lambda>v. v = 0) d) dataframe)"

definition drop_0_columns :: "heap \<Rightarrow> ref \<Rightarrow> heap \<times> ref" where
  "drop_0_columns h dataframe =
     (let zero_columns = zero_columns_of (h ! dataframe)
      in (h[dataframe := drop_columns zero_columns (h ! dataframe)], dataframe))"

definition drop_unique_columns :: "heap \<Rightarrow> ref \<Rightarrow> heap \<times> ref" where
  "drop_unique_columns h Dataframe =
     (case copy_frame h Dataframe of (h1, filtered_dataframe) \<Rightarrow>
        let counts = count_tag_occurrence (h1 ! Dataframe);
            h2 = fold (\<lambda>(item, count) hh.
                         if count = 1
                         then hh[filtered_dataframe := drop_columns [item] (hh ! filtered_dataframe)]
                         else hh) counts h1
        in (h2, filtered_dataframe))"

section \<open>Conjugation deduplicator: \<^verbatim>\<open>deduplicate_tag_conjugations\<close>\<close>

text \<open>The argument is a list whose elements are tag strings or, recursively, lists.\<close>

datatype tag = Str string | Lst "tag list"

fun py_len :: "tag \<Rightarrow> nat" where
  "py_len (Str s) = length s"
| "py_len (Lst ws) = length ws"

text \<open>\<^verbatim>\<open>sorted(word_list, key=len, reverse=True)\<close>. Python's sort is stable and stays so
  under \<^verbatim>\<open>reverse=True\<close>: elements of equal length keep their original order.\<close>

definition sorted_by_len_desc :: "tag list \<Rightarrow> tag list" where
  "sorted_by_len_desc word_list = rev (sort_key py_len (rev word_list))"

definition startswith :: "string \<Rightarrow> string \<Rightarrow> bool" where
  "startswith s p = (take (length p) s = p)"

text \<open>The test of the source, \<^verbatim>\<open>word.startswith(existing_prefix[:len(word)])\<close>.\<close>

definition is_conjugation_of :: "string \<Rightarrow> string \<Rightarrow> bool" where
  "is_conjugation_of word existing_prefix = startswith word (take (length word) existing_prefix)"

text \<open>
  \<^verbatim>\<open>processed_prefixes\<close> is a Python set. The model keeps the words in the order they were
  added; the order in which Python iterates over the set is not specified, so it is a
  parameter: \<open>it processed\<close> is the iteration order of the set built by these insertions.
  \<^verbatim>\<open>any(...)\<close> and \<^verbatim>\<open>next(...)\<close> run over the same unchanged set, so \<^verbatim>\<open>any\<close> is true
  exactly when the search for the first match finds one, and \<^verbatim>\<open>next\<close> returns that match.
\<close>

type_synonym set_iteration = "string list \<Rightarrow> string list"

text \<open>
  The recursion of the source, with the accumulator \<^verbatim>\<open>deleted_pairs\<close> threaded through:
  \<open>conjugations_call\<close> is one call (sort, then loop), \<open>conjugations_loop\<close> is the \<^verbatim>\<open>for\<close> loop
  with its local state \<^verbatim>\<open>processed_prefixes\<close> and \<^verbatim>\<open>deduplicated\<close>. Both return the pair
  (\<^verbatim>\<open>deduplicated\<close>, \<^verbatim>\<open>deleted_pairs\<close>); which of the two the Python call returns is chosen by
  \<^verbatim>\<open>method\<close> in \<open>deduplicate_tag_conjugations\<close> below. In "pairs" mode a nested call returns
  the accumulator itself and the source appends that to the local \<^verbatim>\<open>deduplicated\<close>, which
  is then discarded; the model appends the collapsed sublist in every mode.
\<close>

function conjugations_call :: "set_iteration \<Rightarrow> tag list \<Rightarrow> pair list \<Rightarrow> tag list \<times> pair list"
  and conjugations_loop ::
    "set_iteration \<Rightarrow> tag list \<Rightarrow> string list \<Rightarrow> tag list \<Rightarrow> pair list \<Rightarrow> tag list \<times> pair list"
where
  "conjugations_call it word_list deleted_pairs =
     conjugations_loop it (sorted_by_len_desc word_list) [] [] deleted_pairs"
| "conjugations_loop it [] processed_prefixes deduplicated deleted_pairs =
     (deduplicated, deleted_pairs)"
| "conjugations_loop it (Lst word # sorted_words) processed_prefixes deduplicated deleted_pairs =
     (case conjugations_call it word deleted_pairs of
        (deduplicated_sublist, deleted_pairs') \<Rightarrow>
          conjugations_loop it sorted_words processed_prefixes
            (deduplicated @ [Lst deduplicated_sublist]) deleted_pairs')"
| "conjugations_loop it (Str word # sorted_words) processed_prefixes deduplicated deleted_pairs =
     (case find (is_conjugation_of word) (it processed_prefixes) of
        Some existing_prefix \<Rightarrow>
          conjugations_loop it sorted_words processed_prefixes deduplicated
            (deleted_pairs @ [(word, existing_prefix)])
      | None \<Rightarrow>
          conjugations_loop it sorted_words (processed_prefixes @ [word])
            (deduplicated @ [Str word]) deleted_pairs)"
  by pat_completeness auto
termination
proof (relation "measure (\<lambda>x. case x of
          Inl (it, word_list, deleted_pairs) \<Rightarrow> 2 * size_list size word_list + 1
        | Inr (it, sorted_words, rest) \<Rightarrow> 2 * size_list size sorted_words)")
  have ins: "size_list size (insort_key py_len x xs) = size_list size (x # xs)" for x and xs :: "tag list"
    by (induction xs) auto
  have srt: "size_list size (sort_key py_len xs) = size_list size xs" for xs :: "tag list"
    by (induction xs) (auto simp: ins)
  have rv: "size_list size (rev xs) = size_list size xs" for xs :: "tag list"
    by (induction xs) auto
  have "size_list size (sorted_by_len_desc xs) = size_list size xs" for xs
    by (simp add: sorted_by_len_desc_def rv srt)
  then show "\<And>it word_list deleted_pairs.
       (Inr (it, sorted_by_len_desc word_list, [], [], deleted_pairs), Inl (it, word_list, deleted_pairs))
       \<in> measure (\<lambda>x. case x of
          Inl (it, word_list, deleted_pairs) \<Rightarrow> 2 * size_list size word_list + 1
        | Inr (it, sorted_words, rest) \<Rightarrow> 2 * size_list size sorted_words)"
    by simp
qed auto

text \<open>What the Python call returns: the accumulated pairs for \<^verbatim>\<open>method == "pairs"\<close>, the collapsed
  list otherwise.\<close>

datatype dedup_result = Pairs "pair list" | Deduplicated "tag list"

text \<open>The call as the source has it. \<^verbatim>\<open>deleted_pairs=None\<close> starts a fresh accumulator. The
  second component is the accumulator list after the call, which a caller that passed
  its own list observes.\<close>

definition deduplicate_tag_conjugations ::
  "set_iteration \<Rightarrow> tag list \<Rightarrow> string \<Rightarrow> pair list option \<Rightarrow> dedup_result \<times> pair list" where
  "deduplicate_tag_conjugations it word_list method deleted_pairs =
     (case conjugations_call it word_list (case deleted_pairs of None \<Rightarrow> [] | Some given \<Rightarrow> given) of
        (deduplicated, deleted_pairs') \<Rightarrow>
          (if method = ''pairs'' then Pairs deleted_pairs' else Deduplicated deduplicated,
           deleted_pairs'))"

section \<open>Variance reducer: the component counts of \<^verbatim>\<open>plot_pca_tags\<close>\<close>

text \<open>
  \<^verbatim>\<open>pca.explained_variance_ratio_\<close> comes from the PCA of an external library; it is the
  input here. The source holds float64 values; they are modelled as real numbers, so
  rounding and NaN are outside the model.
\<close>

text \<open>\<^verbatim>\<open>np.cumsum\<close>: the running sums.\<close>

fun cumsum_from :: "real \<Rightarrow> real list \<Rightarrow> real list" where
  "cumsum_from acc [] = []"
| "cumsum_from acc (x # xs) = (acc + x) # cumsum_from (acc + x) xs"

definition cumsum :: "real list \<Rightarrow> real list" where
  "cumsum xs = cumsum_from 0 xs"

text \<open>
  \<^verbatim>\<open>np.argmax\<close> of a boolean array: the index of the first occurrence of the largest value,
  that is the first True, or 0 when every entry is False. An empty array raises
  ValueError.
\<close>

datatype np_error = ValueError

fun first_true :: "bool list \<Rightarrow> nat" where
  "first_true [] = 0"
| "first_true (b # bs) = (if b then 0 else Suc (first_true bs))"

definition np_argmax :: "bool list \<Rightarrow> np_error + nat" where
  "np_argmax bs =
     (if bs = [] then Inl ValueError
      else if True \<in> set bs then Inr (first_true bs) else Inr 0)"

text \<open>\<^verbatim>\<open>np.argmax(cumulative_variance >= threshold) + 1\<close>.\<close>

definition num_components_for_variance :: "real \<Rightarrow> real list \<Rightarrow> np_error + nat" where
  "num_components_for_variance threshold explained_variance_ratio =
     (let cumulative_variance = cumsum explained_variance_ratio
      in case np_argmax (map (\<lambda>c. c \<ge> threshold) cumulative_variance) of
           Inl e \<Rightarrow> Inl e
         | Inr i \<Rightarrow> Inr (i + 1))"

text \<open>The two counts of the source. Only the first is part of the value \<^verbatim>\<open>plot_pca_tags\<close>
  returns; the second is shown in the saturation plot.\<close>

definition num_components_for_80_variance :: "real list \<Rightarrow> np_error + nat" where
  "num_components_for_80_variance explained_variance_ratio =
     num_components_for_variance (80 / 100) explained_variance_ratio"

definition num_components_for_95_variance :: "real list \<Rightarrow> np_error + nat" where
  "num_components_for_95_variance explained_variance_ratio =
     num_components_for_variance (95 / 100) explained_variance_ratio"

section \<open>Deduplication orchestrator: \<^verbatim>\<open>merge_similar_tags_from_dataframe\<close>\<close>

subsection \<open>Tag grouping\<close>

text \<open>
  \<^verbatim>\<open>grouped_columns\<close> is a dict from cluster id to the list of column indices; a dict keeps
  its keys in insertion order, so it is an association list. \<open>dict_append\<close> is
  \<^verbatim>\<open>if cluster_id not in grouped_columns: grouped_columns[cluster_id] = []\<close> followed by
  \<^verbatim>\<open>grouped_columns[cluster_id].append(col_idx)\<close>.
\<close>

fun dict_append :: "(nat \<times> nat list) list \<Rightarrow> nat \<Rightarrow> nat \<Rightarrow> (nat \<times> nat list) list" where
  "dict_append [] cluster_id col_idx = [(cluster_id, [col_idx])]"
| "dict_append ((k, v) # rest) cluster_id col_idx =
     (if k = cluster_id then (k, v @ [col_idx]) # rest
      else (k, v) # dict_append rest cluster_id col_idx)"

text \<open>
  The clustering itself (\<^verbatim>\<open>AgglomerativeClustering(...).fit_predict\<close>) and the Bray-Curtis
  distances (\<^verbatim>\<open>pairwise_distances\<close>) belong to an external library: they are the parameters
  \<open>fit_predict\<close> and \<open>pairwise_distances\<close>. \<open>fit_predict\<close> returns one cluster label per
  column, so every index it yields is within \<^verbatim>\<open>tag_names\<close>.
\<close>

definition group_tags_by_dissimilarity ::
  "('m \<Rightarrow> 't \<Rightarrow> nat list) \<Rightarrow> 'm \<Rightarrow> string list \<Rightarrow> 't \<Rightarrow> string list list" where
  "group_tags_by_dissimilarity fit_predict dissimilarity_matrix tag_names threshold =
     (let clusters = fit_predict dissimilarity_matrix threshold;
          grouped_columns = fold (\<lambda>(col_idx, cluster_id) g. dict_append g cluster_id col_idx)
                              (enumerate 0 clusters) [];
          filtered_groups = filter (\<lambda>group. length group \<ge> 2) (map snd grouped_columns);
          nnamed_groups = map (map (\<lambda>col_idx. tag_names ! col_idx)) filtered_groups
      in nnamed_groups)"

definition generate_tag_dissimilarity :: "(dataframe \<Rightarrow> 'm) \<Rightarrow> dataframe \<Rightarrow> 'm" where
  "generate_tag_dissimilarity pairwise_distances dataframe = pairwise_distances dataframe"

subsection \<open>The nested helpers\<close>

text \<open>\<^verbatim>\<open>itertools.combinations(item, 2)\<close>: all pairs, in the order of the positions.\<close>

fun combinations2 :: "'a list \<Rightarrow> ('a \<times> 'a) list" where
  "combinations2 [] = []"
| "combinations2 (x # xs) = map (Pair x) xs @ combinations2 xs"

text \<open>The items the orchestrator passes are groups of tag names; the names of a group:\<close>

fun group_names :: "tag \<Rightarrow> string list" where
  "group_names (Lst ws) = concat (map (\<lambda>w. case w of Str s \<Rightarrow> [s] | Lst _ \<Rightarrow> []) ws)"
| "group_names (Str s) = map (\<lambda>c. [c]) s"

definition generate_tuple_combinations :: "tag list \<Rightarrow> pair list" where
  "generate_tuple_combinations nested_list =
     concat (map (\<lambda>item. combinations2 (group_names item)) nested_list)"

text \<open>
  The value \<^verbatim>\<open>deduplicate_tag_conjugations\<close> returns is used as a list of pairs after a call
  with method "pairs" and as a list of groups after a call with method "": the method
  fixes which of the two it is.
\<close>

fun pairs_of :: "dedup_result \<Rightarrow> pair list" where
  "pairs_of (Pairs ps) = ps"
| "pairs_of (Deduplicated ts) = []"

fun groups_of :: "dedup_result \<Rightarrow> tag list" where
  "groups_of (Deduplicated ts) = ts"
| "groups_of (Pairs ps) = []"

definition calculate_tag_similarity ::
  "(dataframe \<Rightarrow> 'm) \<Rightarrow> ('m \<Rightarrow> 't \<Rightarrow> nat list) \<Rightarrow> set_iteration \<Rightarrow>
     dataframe \<Rightarrow> string \<Rightarrow> 't \<Rightarrow> dedup_result \<times> 'm" where
  "calculate_tag_similarity pairwise_distances fit_predict it Dataframe method treshold =
     (let tag_dissimilarity = generate_tag_dissimilarity pairwise_distances Dataframe;
          tag_names = columns Dataframe;
          grouped_tags = group_tags_by_dissimilarity fit_predict tag_dissimilarity tag_names treshold;
          deduplicated_tags = fst (deduplicate_tag_conjugations it
                                     (map (\<lambda>group. Lst (map Str group)) grouped_tags) method None)
      in (deduplicated_tags, tag_dissimilarity))"

subsection \<open>Manual resolution\<close>

text \<open>
  The operator's answers are a scripted list of input lines; \<^verbatim>\<open>input\<close> on an exhausted
  script raises EOFError. What the function shows is recorded as a list of events: the
  prompt \<^verbatim>\<open>Merge <source> to <sink>? (y/n):\<close>, the message \<^verbatim>\<open>Merged <source> to <sink>\<close>, and
  the message \<^verbatim>\<open>Input invalid. Please answer with 'y' or 'n'\<close>.
\<close>

datatype io_error = EOFError

datatype event = Prompt string string | Merged string string | Input_invalid

text \<open>\<^verbatim>\<open>str.lower\<close> on ASCII letters; no other character lowers to "y", "n" or "q".\<close>

definition lower_char :: "char \<Rightarrow> char" where
  "lower_char c = (let n = of_char c :: nat in if 65 \<le> n \<and> n \<le> 90 then char_of (n + 32) else c)"

definition lower :: "string \<Rightarrow> string" where
  "lower s = map lower_char s"

text \<open>\<^verbatim>\<open>sinkdata.add(sourcedata, fill_value=0)\<close> on two columns of one frame: the row-wise sum.\<close>

definition series_add :: "series \<Rightarrow> series \<Rightarrow> series" where
  "series_add sinkdata sourcedata = map2 (+) sinkdata sourcedata"

text \<open>
  The loop of \<^verbatim>\<open>manual_deduplication\<close> over \<^verbatim>\<open>tuples\<close>, on the working copy. The result is the
  frame returned, the input lines not yet read, and the events shown. "n" is \<^verbatim>\<open>break\<close>,
  which leaves the loop for the final \<^verbatim>\<open>return\<close>; "q" returns at once; after any other
  answer the message is printed and the \<^verbatim>\<open>for\<close> loop goes on to its next pair.
\<close>

fun manual_deduplication ::
  "pair list \<Rightarrow> dataframe \<Rightarrow> string list \<Rightarrow> event list \<Rightarrow>
     io_error + (dataframe \<times> string list \<times> event list)" where
  "manual_deduplication [] deduplicated_dataframe inputs shown =
     Inr (deduplicated_dataframe, inputs, shown)"
| "manual_deduplication ((source, sink) # tuples) deduplicated_dataframe inputs shown =
     (if source \<in> set (columns deduplicated_dataframe) \<and> sink \<in> set (columns deduplicated_dataframe)
      then
        (case inputs of
           [] \<Rightarrow> Inl EOFError
         | line # inputs' \<Rightarrow>
             let sourcedata = column_data deduplicated_dataframe source;
                 sinkdata = column_data deduplicated_dataframe sink;
                 answer = lower line;
                 shown' = shown @ [Prompt source sink]
             in if answer = ''y'' then
                  manual_deduplication tuples
                    (drop_columns [source]
                       (set_column sink (series_add sinkdata sourcedata) deduplicated_dataframe))
                    inputs' (shown' @ [Merged source sink])
                else if answer = ''n'' then Inr (deduplicated_dataframe, inputs', shown')
                else if answer = ''q'' then Inr (deduplicated_dataframe, inputs', shown')
                else manual_deduplication tuples deduplicated_dataframe inputs' (shown' @ [Input_invalid]))
      else manual_deduplication tuples deduplicated_dataframe inputs shown)"

subsection \<open>The three phases\<close>

text \<open>
  \<open>matrix0\<close> is the matrix \<^verbatim>\<open>generate_binary_item_matrix\<close> hands over. \<^verbatim>\<open>drop_0_columns\<close> is
  applied to it in place and its result is bound to the same name, so from there on
  \<^verbatim>\<open>matrix\<close> is the frame without its all-zero columns. Showing the plot and writing the
  CSV file do not change the value returned and are left out.
\<close>

definition merge_similar_tags_from_dataframe ::
  "(dataframe \<Rightarrow> 'm) \<Rightarrow> ('m \<Rightarrow> 't \<Rightarrow> nat list) \<Rightarrow> set_iteration \<Rightarrow>
     dataframe \<Rightarrow> 't \<Rightarrow> bool \<Rightarrow> string list \<Rightarrow>
     io_error + (dataframe \<times> string list \<times> event list)" where
  "merge_similar_tags_from_dataframe pairwise_distances fit_predict it matrix0 threshold manual inputs =
     (let matrix = drop_columns (zero_columns_of matrix0) matrix0;
          deduplicated_tags =
            pairs_of (fst (calculate_tag_similarity pairwise_distances fit_predict it
                             matrix ''pairs'' threshold));
          matrix_deduplicated = deduplicate_dataframe matrix deduplicated_tags ''strict'';
          deduplicated_tags_control =
            groups_of (fst (calculate_tag_similarity pairwise_distances fit_predict it
                              matrix_deduplicated '''' threshold));
          potential_duplicates = generate_tuple_combinations deduplicated_tags_control;
          matrix_deduplicated_lenient = deduplicate_dataframe matrix potential_duplicates ''lenient'';
          deduplicated_tags_remaining =
            groups_of (fst (calculate_tag_similarity pairwise_distances fit_predict it
                              matrix_deduplicated_lenient '''' threshold));
          remaining_duplicates = filter (\<lambda>item. py_len item > 1) deduplicated_tags_remaining;
          remaining_duplicate_tuple = generate_tuple_combinations remaining_duplicates
      in if manual
         then manual_deduplication remaining_duplicate_tuple matrix_deduplicated_lenient inputs []
         else Inr (matrix_deduplicated_lenient, inputs, []))"

section \<open>Properties of the matrix merger\<close>

lemma fold_overwrite_length:
  "length (fold (\<lambda>i snk. if (s::int list) ! i > 0 then snk[i := s ! i] else snk) [0..<n] k) = length k"
  by (induction n) auto

lemma fold_overwrite_nth:
  "i < length k \<Longrightarrow>
   fold (\<lambda>i snk. if (s::int list) ! i > 0 then snk[i := s ! i] else snk) [0..<n] k ! i =
     (if i < n \<and> s ! i > 0 then s ! i else k ! i)"
proof (induction n)
  case 0
  then show ?case by simp
next
  case (Suc n)
  then show ?case
    by (auto simp: fold_overwrite_length nth_list_update less_Suc_eq)
qed

lemma strict_overwrite_length: "length (strict_overwrite s k) = length k"
  by (simp add: strict_overwrite_def fold_overwrite_length)

lemma strict_overwrite_nth:
  "i < length k \<Longrightarrow> i < length s \<Longrightarrow>
   strict_overwrite s k ! i = (if s ! i > 0 then s ! i else k ! i)"
  by (simp add: strict_overwrite_def fold_overwrite_nth)

lemma columns_drop_columns: "columns (drop_columns names df) = filter (\<lambda>c. c \<notin> set names) (columns df)"
  by (induction df) (auto simp: columns_def drop_columns_def)

lemma map_fst_relabel:
  "map fst (map (\<lambda>(c, d). if c = name then (c, data) else (c, d)) df) = map fst df"
  by (induction df) auto

lemma map_of_relabel:
  "map_of (map (\<lambda>(c, d). if c = name then (c, data) else (c, d)) df) x =
     (if x = name then (if name \<in> fst ` set df then Some data else None) else map_of df x)"
proof (induction df)
  case Nil
  then show ?case by simp
next
  case (Cons p df)
  obtain a b where p: "p = (a, b)" by (cases p)
  show ?case using Cons by (auto simp: p image_iff) force+
qed

lemma columns_set_column:
  "name \<in> set (columns df) \<Longrightarrow> columns (set_column name data df) = columns df"
  by (simp add: set_column_def columns_def map_fst_relabel del: map_map)

lemma map_of_drop_columns:
  "c \<notin> set names \<Longrightarrow> map_of (drop_columns names df) c = map_of df c"
  by (induction df) (auto simp: drop_columns_def)

lemma column_data_drop_columns:
  "c \<notin> set names \<Longrightarrow> column_data (drop_columns names df) c = column_data df c"
  by (simp add: column_data_def map_of_drop_columns)

lemma map_of_set_column:
  "name \<in> set (columns df) \<Longrightarrow>
   map_of (set_column name data df) x = (if x = name then Some data else map_of df x)"
  by (simp add: set_column_def map_of_relabel) (simp add: columns_def)

lemma column_data_set_column_same:
  "name \<in> set (columns df) \<Longrightarrow> column_data (set_column name data df) name = data"
  by (simp add: column_data_def map_of_set_column)

lemma column_data_set_column_other:
  "name \<in> set (columns df) \<Longrightarrow> c \<noteq> name \<Longrightarrow>
   column_data (set_column name data df) c = column_data df c"
  by (simp add: column_data_def map_of_set_column)

lemma map_of_in_columns:
  "c \<in> set (columns df) \<Longrightarrow> \<exists>d. map_of df c = Some d \<and> (c, d) \<in> set df"
  by (induction df) (auto simp: columns_def)

lemma wf_frame_length:
  assumes wf: "wf_frame df" and c: "c \<in> set (columns df)"
  shows "length (column_data df c) = nrows df"
proof -
  from c obtain d where d: "map_of df c = Some d" and m: "(c, d) \<in> set df"
    using map_of_in_columns by blast
  from wf m have "length d = nrows df" by (auto simp: wf_frame_def list_all_iff)
  with d show ?thesis by (simp add: column_data_def)
qed

lemma deduplicate_dataframe_single:
  "deduplicate_dataframe df [p] mode = merge_pair mode df p"
  by (simp add: deduplicate_dataframe_def)

lemma deduplicate_dataframe_append:
  "deduplicate_dataframe df (ps @ qs) mode = deduplicate_dataframe (deduplicate_dataframe df ps mode) qs mode"
  by (simp add: deduplicate_dataframe_def)

lemma deduplicate_dataframe_Cons:
  "deduplicate_dataframe df (p # qs) mode = deduplicate_dataframe (merge_pair mode df p) qs mode"
  by (simp add: deduplicate_dataframe_def)

lemma merge_pair_strict:
  "source \<in> set (columns df) \<Longrightarrow> sink \<in> set (columns df) \<Longrightarrow>
   merge_pair ''strict'' df (source, sink) =
     drop_columns [source] (set_column sink (strict_overwrite (column_data df source) (column_data df sink)) df)"
  by (simp add: merge_pair_def Let_def)

lemma merge_pair_lenient:
  "source \<in> set (columns df) \<Longrightarrow> sink \<in> set (columns df) \<Longrightarrow>
   merge_pair ''lenient'' df (source, sink) =
     (if column_data df source = column_data df sink then drop_columns [source] df else df)"
  by (simp add: merge_pair_def Let_def)

lemma merge_pair_absent:
  "\<not> (source \<in> set (columns df) \<and> sink \<in> set (columns df)) \<Longrightarrow> merge_pair mode df (source, sink) = df"
  unfolding merge_pair_def by (simp only: prod.case if_False)

text \<open>
  Claim C5. In strict mode, for a pair whose source and sink are both columns of the
  matrix, the sink takes the source's value in every row where the source is positive and
  keeps its own value elsewhere, the source column is deleted, and no other column changes.
  (Source and sink are two columns: pairs come from distinct column names.)
\<close>

theorem strict_merge_overwrites_sink_and_drops_source:
  assumes wf: "wf_frame df"
    and src: "source \<in> set (columns df)"
    and snk: "sink \<in> set (columns df)"
    and ne: "source \<noteq> sink"
  shows "columns (deduplicate_dataframe df [(source, sink)] ''strict'') = filter (\<lambda>c. c \<noteq> source) (columns df)
    \<and> length (column_data (deduplicate_dataframe df [(source, sink)] ''strict'') sink) = nrows df
    \<and> (\<forall>i < nrows df.
          column_data (deduplicate_dataframe df [(source, sink)] ''strict'') sink ! i =
            (if column_data df source ! i > 0 then column_data df source ! i else column_data df sink ! i))
    \<and> (\<forall>c. c \<noteq> source \<and> c \<noteq> sink \<longrightarrow>
          column_data (deduplicate_dataframe df [(source, sink)] ''strict'') c = column_data df c)"
proof -
  let ?s = "column_data df source" and ?k = "column_data df sink"
  let ?R = "deduplicate_dataframe df [(source, sink)] ''strict''"
  have R: "?R = drop_columns [source] (set_column sink (strict_overwrite ?s ?k) df)"
    using src snk by (simp add: deduplicate_dataframe_single merge_pair_strict)
  have ls: "length ?s = nrows df" and lk: "length ?k = nrows df"
    using wf src snk by (simp_all add: wf_frame_length)
  have cols: "columns ?R = filter (\<lambda>c. c \<noteq> source) (columns df)"
    using snk by (simp add: R columns_drop_columns columns_set_column)
  have sinkcol: "column_data ?R sink = strict_overwrite ?s ?k"
    using snk ne by (simp add: R column_data_drop_columns column_data_set_column_same)
  have len: "length (column_data ?R sink) = nrows df"
    by (simp add: sinkcol strict_overwrite_length lk)
  have rows: "\<forall>i < nrows df. column_data ?R sink ! i = (if ?s ! i > 0 then ?s ! i else ?k ! i)"
    by (simp add: sinkcol strict_overwrite_nth ls lk)
  have others: "\<forall>c. c \<noteq> source \<and> c \<noteq> sink \<longrightarrow> column_data ?R c = column_data df c"
    using snk by (simp add: R column_data_drop_columns column_data_set_column_other)
  from cols len rows others show ?thesis by blast
qed

lemma list_of_length_3: "length xs = 3 \<Longrightarrow> xs = [xs ! 0, xs ! 1, xs ! 2]"
  by (auto simp: length_Suc_conv numeral_3_eq_3)

text \<open>The example of the claim: source \<open>[1,0,2]\<close> and sink \<open>[0,5,0]\<close> give sink
  \<open>[1,5,2]\<close>, and the source is removed.\<close>

theorem strict_merge_example:
  "deduplicate_dataframe [(''source'', [1, 0, 2]), (''sink'', [0, 5, 0])] [(''source'', ''sink'')] ''strict''
     = [(''sink'', [1, 5, 2])]"
proof -
  let ?df = "[(''source'', [1, 0, 2]), (''sink'', [0, 5, 0])] :: dataframe"
  let ?R = "deduplicate_dataframe ?df [(''source'', ''sink'')] ''strict''"
  have wf: "wf_frame ?df" by (simp add: wf_frame_def columns_def nrows_def)
  have src: "''source'' \<in> set (columns ?df)" and snk: "''sink'' \<in> set (columns ?df)"
    by (simp_all add: columns_def)
  have ne: "''source'' \<noteq> ''sink''" by simp
  note t = strict_merge_overwrites_sink_and_drops_source [OF wf src snk ne]
  from t have cols: "columns ?R = [''sink'']" by (simp add: columns_def)
  from t have len: "length (column_data ?R ''sink'') = 3" by (simp add: nrows_def)
  from t have rows: "\<forall>i < 3. column_data ?R ''sink'' ! i =
      (if column_data ?df ''source'' ! i > 0 then column_data ?df ''source'' ! i else column_data ?df ''sink'' ! i)"
    by (simp add: nrows_def)
  have r0: "column_data ?R ''sink'' ! 0 = 1" using rows by (simp add: column_data_def)
  have r1: "column_data ?R ''sink'' ! 1 = 5" using rows by (simp add: column_data_def)
  have r2: "column_data ?R ''sink'' ! 2 = 2" using rows by (simp add: column_data_def)
  have data: "column_data ?R ''sink'' = [1, 5, 2]"
    using list_of_length_3 [OF len] r0 r1 r2 by simp
  obtain d where R: "?R = [(''sink'', d)]"
    using cols by (cases ?R) (auto simp: columns_def)
  with data show ?thesis by (simp add: column_data_def)
qed


lemma columns_drop_columns_mem:
  "c \<in> set (columns (drop_columns names df)) \<longleftrightarrow> c \<in> set (columns df) \<and> c \<notin> set names"
  by (simp add: columns_drop_columns)

text \<open>
  Claim C6. In lenient mode, for a pair whose source and sink are both columns of the
  matrix, the source column is deleted exactly when it is element-wise identical to the
  sink; when the two differ the matrix is returned unchanged; in both cases the sink
  column stays, with its values unchanged.
\<close>

theorem lenient_merge_drops_source_iff_identical:
  assumes src: "source \<in> set (columns df)"
    and snk: "sink \<in> set (columns df)"
    and ne: "source \<noteq> sink"
  shows "(source \<notin> set (columns (deduplicate_dataframe df [(source, sink)] ''lenient''))
            \<longleftrightarrow> column_data df source = column_data df sink)
    \<and> (column_data df source = column_data df sink \<longrightarrow>
          deduplicate_dataframe df [(source, sink)] ''lenient'' = drop_columns [source] df)
    \<and> (column_data df source \<noteq> column_data df sink \<longrightarrow>
          deduplicate_dataframe df [(source, sink)] ''lenient'' = df)
    \<and> sink \<in> set (columns (deduplicate_dataframe df [(source, sink)] ''lenient''))
    \<and> column_data (deduplicate_dataframe df [(source, sink)] ''lenient'') sink = column_data df sink"
proof (cases "column_data df source = column_data df sink")
  case True
  have R: "deduplicate_dataframe df [(source, sink)] ''lenient'' = drop_columns [source] df"
    using src snk True by (simp add: deduplicate_dataframe_single merge_pair_lenient)
  have gone: "source \<notin> set (columns (drop_columns [source] df))"
    by (simp add: columns_drop_columns_mem)
  have kept: "sink \<in> set (columns (drop_columns [source] df))"
    using snk ne by (simp add: columns_drop_columns_mem)
  have same: "column_data (drop_columns [source] df) sink = column_data df sink"
    using ne by (simp add: column_data_drop_columns)
  from True gone kept same show ?thesis unfolding R by simp
next
  case False
  have R: "deduplicate_dataframe df [(source, sink)] ''lenient'' = df"
    using src snk False by (simp add: deduplicate_dataframe_single merge_pair_lenient)
  from False src snk show ?thesis unfolding R by simp
qed

theorem lenient_merge_example:
  "deduplicate_dataframe [(''a'', [1, 0]), (''b'', [1, 0])] [(''a'', ''b'')] ''lenient'' = [(''b'', [1, 0])]
   \<and> deduplicate_dataframe [(''a'', [1, 0]), (''b'', [1, 1])] [(''a'', ''b'')] ''lenient''
        = [(''a'', [1, 0]), (''b'', [1, 1])]"
proof -
  let ?same = "[(''a'', [1, 0]), (''b'', [1, 0])] :: dataframe"
  let ?diff = "[(''a'', [1, 0]), (''b'', [1, 1])] :: dataframe"
  have ne: "''a'' \<noteq> ''b''" by simp
  have s1: "''a'' \<in> set (columns ?same)" and s2: "''b'' \<in> set (columns ?same)"
    by (simp_all add: columns_def)
  have d1: "''a'' \<in> set (columns ?diff)" and d2: "''b'' \<in> set (columns ?diff)"
    by (simp_all add: columns_def)
  have eq: "column_data ?same ''a'' = column_data ?same ''b''" by (simp add: column_data_def)
  have neq: "column_data ?diff ''a'' \<noteq> column_data ?diff ''b''" by (simp add: column_data_def)
  from lenient_merge_drops_source_iff_identical [OF s1 s2 ne] eq
  have "deduplicate_dataframe ?same [(''a'', ''b'')] ''lenient'' = drop_columns [''a''] ?same"
    by blast
  then have one: "deduplicate_dataframe ?same [(''a'', ''b'')] ''lenient'' = [(''b'', [1, 0])]"
    by (simp add: drop_columns_def)
  from lenient_merge_drops_source_iff_identical [OF d1 d2 ne] neq
  have two: "deduplicate_dataframe ?diff [(''a'', ''b'')] ''lenient'' = ?diff"
    by blast
  from one two show ?thesis by simp
qed

text \<open>
  Claim C7. A pair whose source or sink is not a column of the current matrix (the matrix
  as the pairs before it have left it) is skipped: the step returns the matrix unchanged,
  so the whole run equals the run without that pair. The mode is arbitrary, so this holds
  for strict and lenient alike; the model has no error branch to take.
\<close>

theorem absent_pair_is_skipped:
  assumes absent: "source \<notin> set (columns (deduplicate_dataframe df ps mode))
                 \<or> sink \<notin> set (columns (deduplicate_dataframe df ps mode))"
  shows "merge_pair mode (deduplicate_dataframe df ps mode) (source, sink) = deduplicate_dataframe df ps mode
    \<and> deduplicate_dataframe df (ps @ (source, sink) # qs) mode = deduplicate_dataframe df (ps @ qs) mode"
proof -
  from absent have skip: "merge_pair mode (deduplicate_dataframe df ps mode) (source, sink)
      = deduplicate_dataframe df ps mode"
    by (intro merge_pair_absent) blast
  have "deduplicate_dataframe df (ps @ (source, sink) # qs) mode
      = deduplicate_dataframe (merge_pair mode (deduplicate_dataframe df ps mode) (source, sink)) qs mode"
    by (simp only: deduplicate_dataframe_append deduplicate_dataframe_Cons)
  also have "\<dots> = deduplicate_dataframe df (ps @ qs) mode"
    by (simp only: skip deduplicate_dataframe_append)
  finally show ?thesis using skip by simp
qed

theorem absent_pair_example:
  "deduplicate_dataframe [(''a'', [1]), (''b'', [0])] [(''a'', ''b''), (''a'', ''b'')] ''strict'' = [(''b'', [1])]
   \<and> deduplicate_dataframe [(''a'', [1]), (''b'', [1])] [(''a'', ''b''), (''a'', ''b'')] ''lenient'' = [(''b'', [1])]"
proof -
  let ?df = "[(''a'', [1]), (''b'', [0])] :: dataframe"
  let ?dg = "[(''a'', [1]), (''b'', [1])] :: dataframe"
  have after1: "deduplicate_dataframe ?df [(''a'', ''b'')] ''strict'' = [(''b'', [1])]"
    by code_simp
  have after2: "deduplicate_dataframe ?dg [(''a'', ''b'')] ''lenient'' = [(''b'', [1])]"
    by code_simp
  have a1: "''a'' \<notin> set (columns (deduplicate_dataframe ?df [(''a'', ''b'')] ''strict''))
          \<or> ''b'' \<notin> set (columns (deduplicate_dataframe ?df [(''a'', ''b'')] ''strict''))"
    by (simp add: after1 columns_def)
  have a2: "''a'' \<notin> set (columns (deduplicate_dataframe ?dg [(''a'', ''b'')] ''lenient''))
          \<or> ''b'' \<notin> set (columns (deduplicate_dataframe ?dg [(''a'', ''b'')] ''lenient''))"
    by (simp add: after2 columns_def)
  from absent_pair_is_skipped [OF a1, of "[]"]
  have one: "deduplicate_dataframe ?df [(''a'', ''b''), (''a'', ''b'')] ''strict'' = [(''b'', [1])]"
    by (simp add: after1)
  from absent_pair_is_skipped [OF a2, of "[]"]
  have two: "deduplicate_dataframe ?dg [(''a'', ''b''), (''a'', ''b'')] ''lenient'' = [(''b'', [1])]"
    by (simp add: after2)
  from one two show ?thesis by simp
qed

section \<open>Properties of the column filter\<close>

lemma fold_drop_other:
  "q \<noteq> f \<Longrightarrow>
   fold (\<lambda>(item, count) hh. if count = (1::int) then hh[f := drop_columns [item] (hh ! f)] else hh) counts h ! q = h ! q"
  by (induction counts arbitrary: h) (auto split: prod.splits)

lemma fold_drop_length:
  "length (fold (\<lambda>(item, count) hh. if count = (1::int) then hh[f := drop_columns [item] (hh ! f)] else hh) counts h) = length h"
  by (induction counts arbitrary: h) (auto split: prod.splits)

lemma fold_drop_at:
  "f < length h \<Longrightarrow>
   fold (\<lambda>(item, count) hh. if count = (1::int) then hh[f := drop_columns [item] (hh ! f)] else hh) counts h ! f
     = fold (\<lambda>(item, count) df. if count = 1 then drop_columns [item] df else df) counts (h ! f)"
  by (induction counts arbitrary: h) (auto split: prod.splits)

lemma drop_unique_columns_fst:
  "fst (drop_unique_columns h r) =
     fold (\<lambda>(item, count) hh. if count = 1 then hh[length h := drop_columns [item] (hh ! length h)] else hh)
       (count_tag_occurrence (h ! r)) (h @ [h ! r])"
  if "r < length h"
  using that by (simp add: drop_unique_columns_def copy_frame_def Let_def nth_append)

lemma drop_unique_columns_snd: "snd (drop_unique_columns h r) = length h"
  by (simp add: drop_unique_columns_def copy_frame_def Let_def)

text \<open>
  Claim C8, as amended. \<^verbatim>\<open>drop_unique_columns\<close> works on a copy: it returns a new object and
  every frame that existed before the call, the argument included, is unchanged.
  \<^verbatim>\<open>drop_0_columns\<close> does not: it returns the object it was given, and that object has
  lost its all-zero columns; every other frame is unchanged.
\<close>

theorem column_filters_copy_or_in_place:
  assumes r: "r < length h"
  shows "snd (drop_unique_columns h r) \<noteq> r
    \<and> (\<forall>q < length h. fst (drop_unique_columns h r) ! q = h ! q)
    \<and> snd (drop_0_columns h r) = r
    \<and> fst (drop_0_columns h r) ! r = drop_columns (zero_columns_of (h ! r)) (h ! r)
    \<and> (\<forall>q < length h. q \<noteq> r \<longrightarrow> fst (drop_0_columns h r) ! q = h ! q)"
proof -
  have a: "snd (drop_unique_columns h r) \<noteq> r"
    using r by (simp add: drop_unique_columns_snd)
  have b: "\<forall>q < length h. fst (drop_unique_columns h r) ! q = h ! q"
    using r by (simp add: drop_unique_columns_fst fold_drop_other nth_append)
  have c: "snd (drop_0_columns h r) = r"
    by (simp add: drop_0_columns_def Let_def)
  have d: "fst (drop_0_columns h r) ! r = drop_columns (zero_columns_of (h ! r)) (h ! r)"
    using r by (simp add: drop_0_columns_def Let_def)
  have e: "\<forall>q < length h. q \<noteq> r \<longrightarrow> fst (drop_0_columns h r) ! q = h ! q"
    by (simp add: drop_0_columns_def Let_def)
  from a b c d e show ?thesis by blast
qed

text \<open>The claim as stated fails for \<^verbatim>\<open>drop_0_columns\<close>: after the call the frame passed in
  no longer holds its all-zero column.\<close>

theorem drop_0_columns_changes_its_argument:
  "fst (drop_0_columns [[(''a'', [0, 0]), (''b'', [1, 0])]] 0) ! 0 \<noteq> [(''a'', [0, 0]), (''b'', [1, 0])]"
  by (simp add: drop_0_columns_def zero_columns_of_def drop_columns_def)

theorem column_filters_example:
  "snd (drop_unique_columns [[(''id'', [0, 1]), (''x'', [1, 0]), (''z'', [0, 0])]] 0) = 1
   \<and> fst (drop_unique_columns [[(''id'', [0, 1]), (''x'', [1, 0]), (''z'', [0, 0])]] 0) ! 0
        = [(''id'', [0, 1]), (''x'', [1, 0]), (''z'', [0, 0])]
   \<and> fst (drop_0_columns [[(''id'', [0, 1]), (''x'', [1, 0]), (''z'', [0, 0])]] 0) ! 0
        = [(''id'', [0, 1]), (''x'', [1, 0])]"
proof -
  let ?h = "[[(''id'', [0, 1]), (''x'', [1, 0]), (''z'', [0, 0])]] :: heap"
  have r: "0 < length ?h" by simp
  note t = column_filters_copy_or_in_place [OF r]
  have one: "snd (drop_unique_columns ?h 0) = 1"
    by (simp add: drop_unique_columns_snd)
  from t have two: "fst (drop_unique_columns ?h 0) ! 0 = ?h ! 0" by simp
  from t have "fst (drop_0_columns ?h 0) ! 0 = drop_columns (zero_columns_of (?h ! 0)) (?h ! 0)"
    by blast
  then have three: "fst (drop_0_columns ?h 0) ! 0 = [(''id'', [0, 1]), (''x'', [1, 0])]"
    by (simp add: zero_columns_of_def drop_columns_def)
  from one two three show ?thesis by simp
qed


lemma count_tag_occurrence_names:
  "fst ` set (count_tag_occurrence df) \<subseteq> set (drop 1 (columns df))"
  by (auto simp: count_tag_occurrence_def sort_counts_desc_def Let_def split: if_splits)

lemma fold_drop_keeps_head:
  "c \<notin> fst ` set counts \<Longrightarrow>
   fold (\<lambda>(item, count) df. if count = (1::int) then drop_columns [item] df else df) counts ((c, d) # rest)
     = (c, d) # fold (\<lambda>(item, count) df. if count = 1 then drop_columns [item] df else df) counts rest"
  by (induction counts arbitrary: rest) (auto simp: drop_columns_def split: prod.splits)

text \<open>
  Claim C10. \<^verbatim>\<open>drop_unique_columns\<close> never removes the first column: counting starts at
  column index 1, so the first column's name is never among the counted items, and with
  unique column names dropping the counted items leaves it in place, first and unchanged.
\<close>

theorem drop_unique_columns_keeps_first_column:
  assumes r: "r < length h"
    and first: "h ! r = (c, d) # rest"
    and names: "distinct (columns (h ! r))"
  shows "\<exists>rest'. fst (drop_unique_columns h r) ! snd (drop_unique_columns h r) = (c, d) # rest'"
proof -
  let ?counts = "count_tag_occurrence (h ! r)"
  let ?step = "\<lambda>(item, count) df. if count = (1::int) then drop_columns [item] df else df"
  from names first have "c \<notin> set (drop 1 (columns (h ! r)))"
    by (simp add: columns_def)
  with count_tag_occurrence_names [of "h ! r"] have c: "c \<notin> fst ` set ?counts"
    by blast
  have "fst (drop_unique_columns h r) ! snd (drop_unique_columns h r) = fold ?step ?counts (h ! r)"
    using r by (simp add: drop_unique_columns_fst drop_unique_columns_snd fold_drop_at)
  also have "\<dots> = (c, d) # fold ?step ?counts rest"
    using c by (simp add: first fold_drop_keeps_head)
  finally show ?thesis by blast
qed

text \<open>An instance where the first column has exactly one nonzero observation: it stays,
  while the tag column with a single observation goes.\<close>

theorem drop_unique_columns_first_column_example:
  "fst (drop_unique_columns [[(''Article Title'', [0, 1]), (''x'', [1, 0]), (''y'', [1, 1])]] 0)
     ! snd (drop_unique_columns [[(''Article Title'', [0, 1]), (''x'', [1, 0]), (''y'', [1, 1])]] 0)
   = [(''Article Title'', [0, 1]), (''y'', [1, 1])]"
proof -
  let ?h = "[[(''Article Title'', [0, 1]), (''x'', [1, 0]), (''y'', [1, 1])]] :: heap"
  have r: "0 < length ?h" by simp
  have first: "?h ! 0 = (''Article Title'', [0, 1]) # [(''x'', [1, 0]), (''y'', [1, 1])]" by simp
  have names: "distinct (columns (?h ! 0))" by (simp add: columns_def)
  from drop_unique_columns_keeps_first_column [OF r first names]
  obtain rest' where kept: "fst (drop_unique_columns ?h 0) ! snd (drop_unique_columns ?h 0)
      = (''Article Title'', [0, 1]) # rest'"
    by blast
  have val: "fst (drop_unique_columns ?h 0) ! snd (drop_unique_columns ?h 0)
      = [(''Article Title'', [0, 1]), (''y'', [1, 1])]"
    by code_simp
  from kept val show ?thesis by simp
qed

section \<open>Properties of the conjugation deduplicator\<close>

lemma insort_key_Str:
  "insort_key py_len (Str x) (map Str xs) = map Str (insort_key length x xs)"
  by (induction xs) auto

lemma sort_key_Str: "sort_key py_len (map Str xs) = map Str (sort_key length xs)"
  by (induction xs) (auto simp: insort_key_Str)

lemma sorted_by_len_desc_Str:
  "sorted_by_len_desc (map Str ws) = map Str (rev (sort_key length (rev ws)))"
  by (simp add: sorted_by_len_desc_def rev_map sort_key_Str)

lemma sorted_by_len_desc_id:
  assumes "sorted (rev (map length A))"
  shows "sorted_by_len_desc (map Str A) = map Str A"
proof -
  from assms have "sorted (map length (rev A))" by (simp add: rev_map)
  then have "sort_key length (rev A) = rev A" by (rule sort_key_id_if_sorted)
  then show ?thesis by (simp only: sorted_by_len_desc_Str rev_rev_ident)
qed

lemma conjugations_loop_flat:
  "\<exists>A. set A \<subseteq> set ss
     \<and> (sorted (rev (map length ss)) \<longrightarrow> sorted (rev (map length A)))
     \<and> (\<forall>Dd dp. fst (conjugations_loop it (map Str ss) P Dd dp) = Dd @ map Str A)
     \<and> (\<forall>Dd acc. conjugations_loop it (map Str A) P Dd acc = (Dd @ map Str A, acc))"
proof (induction ss arbitrary: P)
  case Nil
  show ?case by (rule exI [of _ "[]"]) simp
next
  case (Cons w ss)
  show ?case
  proof (cases "find (is_conjugation_of w) (it P)")
    case None
    from Cons.IH [of "P @ [w]"] obtain A where
      sub: "set A \<subseteq> set ss"
      and srt: "sorted (rev (map length ss)) \<longrightarrow> sorted (rev (map length A))"
      and run: "\<forall>Dd dp. fst (conjugations_loop it (map Str ss) (P @ [w]) Dd dp) = Dd @ map Str A"
      and again: "\<forall>Dd acc. conjugations_loop it (map Str A) (P @ [w]) Dd acc = (Dd @ map Str A, acc)"
      by blast
    have s1: "set (w # A) \<subseteq> set (w # ss)" using sub by auto
    have s2: "sorted (rev (map length (w # ss))) \<longrightarrow> sorted (rev (map length (w # A)))"
      using sub srt by (auto simp: sorted_append)
    have s3: "\<forall>Dd dp. fst (conjugations_loop it (map Str (w # ss)) P Dd dp) = Dd @ map Str (w # A)"
      using None run by simp
    have s4: "\<forall>Dd acc. conjugations_loop it (map Str (w # A)) P Dd acc = (Dd @ map Str (w # A), acc)"
      using None again by simp
    from s1 s2 s3 s4 show ?thesis by blast
  next
    case (Some e)
    from Cons.IH [of P] obtain A where
      sub: "set A \<subseteq> set ss"
      and srt: "sorted (rev (map length ss)) \<longrightarrow> sorted (rev (map length A))"
      and run: "\<forall>Dd dp. fst (conjugations_loop it (map Str ss) P Dd dp) = Dd @ map Str A"
      and again: "\<forall>Dd acc. conjugations_loop it (map Str A) P Dd acc = (Dd @ map Str A, acc)"
      by blast
    have s1: "set A \<subseteq> set (w # ss)" using sub by auto
    have s2: "sorted (rev (map length (w # ss))) \<longrightarrow> sorted (rev (map length A))"
      using srt by (auto simp: sorted_append)
    have s3: "\<forall>Dd dp. fst (conjugations_loop it (map Str (w # ss)) P Dd dp) = Dd @ map Str A"
      using Some run by simp
    from s1 s2 s3 again show ?thesis by blast
  qed
qed

lemma collapse_rerun:
  "\<exists>A. fst (conjugations_call it (map Str ws) dp) = map Str A
     \<and> (\<forall>acc. conjugations_call it (map Str A) acc = (map Str A, acc))"
proof -
  let ?ss = "rev (sort_key length (rev ws))"
  have srt: "sorted (rev (map length ?ss))"
    by (simp add: rev_map)
  from conjugations_loop_flat [of ?ss it "[]"] srt obtain A where
    sA: "sorted (rev (map length A))"
    and run: "\<forall>Dd dp. fst (conjugations_loop it (map Str ?ss) [] Dd dp) = Dd @ map Str A"
    and again: "\<forall>Dd acc. conjugations_loop it (map Str A) [] Dd acc = (Dd @ map Str A, acc)"
    by blast
  have one: "fst (conjugations_call it (map Str ws) dp) = map Str A"
    using run by (simp add: sorted_by_len_desc_Str)
  have two: "\<forall>acc. conjugations_call it (map Str A) acc = (map Str A, acc)"
    using again by (simp add: sorted_by_len_desc_id [OF sA])
  from one two show ?thesis by blast
qed

text \<open>
  Claim C3. Collapse mode is idempotent on lists of tag strings: whatever list the first
  run returns, running the function on that list again (with the same method, and with any
  accumulator or none) returns the same list and leaves the accumulator as it was, so no
  new pair is recorded. This holds for every iteration order of the set.
\<close>

theorem collapse_is_idempotent:
  assumes m: "method \<noteq> ''pairs''"
  shows "\<exists>D acc1. deduplicate_tag_conjugations it (map Str ws) method dp = (Deduplicated D, acc1)
      \<and> deduplicate_tag_conjugations it D method (Some acc) = (Deduplicated D, acc)
      \<and> deduplicate_tag_conjugations it D method None = (Deduplicated D, [])"
proof -
  let ?dp0 = "case dp of None \<Rightarrow> [] | Some given \<Rightarrow> given"
  from collapse_rerun [of it ws ?dp0] obtain A where
    one: "fst (conjugations_call it (map Str ws) ?dp0) = map Str A"
    and two: "\<forall>acc. conjugations_call it (map Str A) acc = (map Str A, acc)"
    by blast
  have first: "deduplicate_tag_conjugations it (map Str ws) method dp
      = (Deduplicated (map Str A), snd (conjugations_call it (map Str ws) ?dp0))"
    using m one by (simp add: deduplicate_tag_conjugations_def case_prod_beta del: conjugations_call.simps)
  have rerun: "deduplicate_tag_conjugations it (map Str A) method (Some acc) = (Deduplicated (map Str A), acc)"
    using m two by (simp add: deduplicate_tag_conjugations_def del: conjugations_call.simps)
  have fresh: "deduplicate_tag_conjugations it (map Str A) method None = (Deduplicated (map Str A), [])"
    using m two by (simp add: deduplicate_tag_conjugations_def del: conjugations_call.simps)
  from first rerun fresh show ?thesis by blast
qed

theorem collapse_is_idempotent_example:
  "deduplicate_tag_conjugations (\<lambda>xs. xs) [Str ''growth'', Str ''grew''] '''' (Some [(''x'', ''y'')])
     = (Deduplicated [Str ''growth'', Str ''grew''], [(''x'', ''y'')])"
proof -
  have m: "'''' \<noteq> ''pairs''" by simp
  from collapse_is_idempotent [OF m, of "\<lambda>xs. xs" "[''grow'', ''growth'', ''grew'']" None "[(''x'', ''y'')]"]
  obtain D acc1 where
    first: "deduplicate_tag_conjugations (\<lambda>xs. xs) (map Str [''grow'', ''growth'', ''grew'']) '''' None
        = (Deduplicated D, acc1)"
    and rerun: "deduplicate_tag_conjugations (\<lambda>xs. xs) D '''' (Some [(''x'', ''y'')])
        = (Deduplicated D, [(''x'', ''y'')])"
    by blast
  have "deduplicate_tag_conjugations (\<lambda>xs. xs) (map Str [''grow'', ''growth'', ''grew'']) '''' None
      = (Deduplicated [Str ''growth'', Str ''grew''], [(''grow'', ''growth'')])"
    by code_simp
  with first have "D = [Str ''growth'', Str ''grew'']" by simp
  with rerun show ?thesis by simp
qed

lemma find_unique:
  assumes "a \<in> set xs" and "P a" and "\<forall>x\<in>set xs. P x \<longrightarrow> x = a"
  shows "find P xs = Some a"
  using assms
proof (induction xs)
  case Nil
  then show ?case by simp
next
  case (Cons y ys)
  show ?case
  proof (cases "P y")
    case True
    with Cons.prems(3) have "y = a" by simp
    with True show ?thesis by simp
  next
    case False
    with Cons.prems(1,2) have "a \<in> set ys" by auto
    moreover from Cons.prems(3) have "\<forall>x\<in>set ys. P x \<longrightarrow> x = a" by simp
    ultimately have "find P ys = Some a" using Cons.IH Cons.prems(2) by blast
    with False show ?thesis by simp
  qed
qed

lemma find_none: "\<forall>x\<in>set xs. \<not> P x \<Longrightarrow> find P xs = None"
  by (simp add: find_None_iff)

lemma grow_matches_growth: "is_conjugation_of ''grow'' ''growth''"
  by (simp add: is_conjugation_of_def startswith_def)

lemma grew_no_match_growth: "\<not> is_conjugation_of ''grew'' ''growth''"
  by (simp add: is_conjugation_of_def startswith_def)

lemma grow_no_match_grew: "\<not> is_conjugation_of ''grow'' ''grew''"
  by (simp add: is_conjugation_of_def startswith_def)



lemma loop_growth_grow_grew:
  assumes it: "\<forall>xs. set (it xs) = set xs"
  shows "conjugations_loop it [Str ''growth'', Str ''grow'', Str ''grew''] [] [] dp
           = ([Str ''growth'', Str ''grew''], dp @ [(''grow'', ''growth'')])"
proof -
  have s0: "set (it []) = {}" and s1: "set (it [''growth'']) = {''growth''}"
    using it by simp_all
  have f0: "find (is_conjugation_of ''growth'') (it []) = None"
    by (rule find_none) (simp add: s0)
  have f1: "find (is_conjugation_of ''grow'') (it [''growth'']) = Some ''growth''"
    by (rule find_unique) (simp_all add: s1 grow_matches_growth)
  have f2: "find (is_conjugation_of ''grew'') (it [''growth'']) = None"
    by (rule find_none) (simp add: s1 grew_no_match_growth)
  show ?thesis by (simp add: f0 f1 f2)
qed

lemma loop_growth_grew_grow:
  assumes it: "\<forall>xs. set (it xs) = set xs"
  shows "conjugations_loop it [Str ''growth'', Str ''grew'', Str ''grow''] [] [] dp
           = ([Str ''growth'', Str ''grew''], dp @ [(''grow'', ''growth'')])"
proof -
  have s0: "set (it []) = {}" and s1: "set (it [''growth'']) = {''growth''}"
    and s2: "set (it [''growth'', ''grew'']) = {''growth'', ''grew''}"
    using it by simp_all
  have f0: "find (is_conjugation_of ''growth'') (it []) = None"
    by (rule find_none) (simp add: s0)
  have f1: "find (is_conjugation_of ''grew'') (it [''growth'']) = None"
    by (rule find_none) (simp add: s1 grew_no_match_growth)
  have f2: "find (is_conjugation_of ''grow'') (it [''growth'', ''grew'']) = Some ''growth''"
    by (rule find_unique) (simp_all add: s2 grow_matches_growth grow_no_match_grew)
  show ?thesis by (simp add: f0 f1 f2)
qed


lemma grow_order_1:
  assumes it: "\<forall>xs. set (it xs) = set xs"
  shows "sorted_by_len_desc (map Str [''grow'', ''growth'', ''grew''])
           = Str ''growth'' # map Str (filter (\<lambda>t. t \<noteq> ''growth'') [''grow'', ''growth'', ''grew''])
       \<and> conjugations_call it (map Str [''grow'', ''growth'', ''grew'']) []
           = ([Str ''growth'', Str ''grew''], [(''grow'', ''growth'')])"
proof -
  have order: "sorted_by_len_desc (map Str [''grow'', ''growth'', ''grew'']) = [Str ''growth'', Str ''grow'', Str ''grew'']"
    by (simp add: sorted_by_len_desc_def)
  have "conjugations_call it (map Str [''grow'', ''growth'', ''grew'']) []
      = conjugations_loop it [Str ''growth'', Str ''grow'', Str ''grew''] [] [] []"
    by (simp only: conjugations_call.simps order)
  also have "\<dots> = ([Str ''growth'', Str ''grew''], [] @ [(''grow'', ''growth'')])"
    by (rule loop_growth_grow_grew [OF it])
  finally have call: "conjugations_call it (map Str [''grow'', ''growth'', ''grew'']) []
      = ([Str ''growth'', Str ''grew''], [] @ [(''grow'', ''growth'')])" .
  from order call show ?thesis by (simp del: conjugations_call.simps)
qed

lemma grow_order_2:
  assumes it: "\<forall>xs. set (it xs) = set xs"
  shows "sorted_by_len_desc (map Str [''grow'', ''grew'', ''growth''])
           = Str ''growth'' # map Str (filter (\<lambda>t. t \<noteq> ''growth'') [''grow'', ''grew'', ''growth''])
       \<and> conjugations_call it (map Str [''grow'', ''grew'', ''growth'']) []
           = ([Str ''growth'', Str ''grew''], [(''grow'', ''growth'')])"
proof -
  have order: "sorted_by_len_desc (map Str [''grow'', ''grew'', ''growth'']) = [Str ''growth'', Str ''grow'', Str ''grew'']"
    by (simp add: sorted_by_len_desc_def)
  have "conjugations_call it (map Str [''grow'', ''grew'', ''growth'']) []
      = conjugations_loop it [Str ''growth'', Str ''grow'', Str ''grew''] [] [] []"
    by (simp only: conjugations_call.simps order)
  also have "\<dots> = ([Str ''growth'', Str ''grew''], [] @ [(''grow'', ''growth'')])"
    by (rule loop_growth_grow_grew [OF it])
  finally have call: "conjugations_call it (map Str [''grow'', ''grew'', ''growth'']) []
      = ([Str ''growth'', Str ''grew''], [] @ [(''grow'', ''growth'')])" .
  from order call show ?thesis by (simp del: conjugations_call.simps)
qed

lemma grow_order_3:
  assumes it: "\<forall>xs. set (it xs) = set xs"
  shows "sorted_by_len_desc (map Str [''growth'', ''grow'', ''grew''])
           = Str ''growth'' # map Str (filter (\<lambda>t. t \<noteq> ''growth'') [''growth'', ''grow'', ''grew''])
       \<and> conjugations_call it (map Str [''growth'', ''grow'', ''grew'']) []
           = ([Str ''growth'', Str ''grew''], [(''grow'', ''growth'')])"
proof -
  have order: "sorted_by_len_desc (map Str [''growth'', ''grow'', ''grew'']) = [Str ''growth'', Str ''grow'', Str ''grew'']"
    by (simp add: sorted_by_len_desc_def)
  have "conjugations_call it (map Str [''growth'', ''grow'', ''grew'']) []
      = conjugations_loop it [Str ''growth'', Str ''grow'', Str ''grew''] [] [] []"
    by (simp only: conjugations_call.simps order)
  also have "\<dots> = ([Str ''growth'', Str ''grew''], [] @ [(''grow'', ''growth'')])"
    by (rule loop_growth_grow_grew [OF it])
  finally have call: "conjugations_call it (map Str [''growth'', ''grow'', ''grew'']) []
      = ([Str ''growth'', Str ''grew''], [] @ [(''grow'', ''growth'')])" .
  from order call show ?thesis by (simp del: conjugations_call.simps)
qed

lemma grow_order_4:
  assumes it: "\<forall>xs. set (it xs) = set xs"
  shows "sorted_by_len_desc (map Str [''growth'', ''grew'', ''grow''])
           = Str ''growth'' # map Str (filter (\<lambda>t. t \<noteq> ''growth'') [''growth'', ''grew'', ''grow''])
       \<and> conjugations_call it (map Str [''growth'', ''grew'', ''grow'']) []
           = ([Str ''growth'', Str ''grew''], [(''grow'', ''growth'')])"
proof -
  have order: "sorted_by_len_desc (map Str [''growth'', ''grew'', ''grow'']) = [Str ''growth'', Str ''grew'', Str ''grow'']"
    by (simp add: sorted_by_len_desc_def)
  have "conjugations_call it (map Str [''growth'', ''grew'', ''grow'']) []
      = conjugations_loop it [Str ''growth'', Str ''grew'', Str ''grow''] [] [] []"
    by (simp only: conjugations_call.simps order)
  also have "\<dots> = ([Str ''growth'', Str ''grew''], [] @ [(''grow'', ''growth'')])"
    by (rule loop_growth_grew_grow [OF it])
  finally have call: "conjugations_call it (map Str [''growth'', ''grew'', ''grow'']) []
      = ([Str ''growth'', Str ''grew''], [] @ [(''grow'', ''growth'')])" .
  from order call show ?thesis by (simp del: conjugations_call.simps)
qed

lemma grow_order_5:
  assumes it: "\<forall>xs. set (it xs) = set xs"
  shows "sorted_by_len_desc (map Str [''grew'', ''grow'', ''growth''])
           = Str ''growth'' # map Str (filter (\<lambda>t. t \<noteq> ''growth'') [''grew'', ''grow'', ''growth''])
       \<and> conjugations_call it (map Str [''grew'', ''grow'', ''growth'']) []
           = ([Str ''growth'', Str ''grew''], [(''grow'', ''growth'')])"
proof -
  have order: "sorted_by_len_desc (map Str [''grew'', ''grow'', ''growth'']) = [Str ''growth'', Str ''grew'', Str ''grow'']"
    by (simp add: sorted_by_len_desc_def)
  have "conjugations_call it (map Str [''grew'', ''grow'', ''growth'']) []
      = conjugations_loop it [Str ''growth'', Str ''grew'', Str ''grow''] [] [] []"
    by (simp only: conjugations_call.simps order)
  also have "\<dots> = ([Str ''growth'', Str ''grew''], [] @ [(''grow'', ''growth'')])"
    by (rule loop_growth_grew_grow [OF it])
  finally have call: "conjugations_call it (map Str [''grew'', ''grow'', ''growth'']) []
      = ([Str ''growth'', Str ''grew''], [] @ [(''grow'', ''growth'')])" .
  from order call show ?thesis by (simp del: conjugations_call.simps)
qed

lemma grow_order_6:
  assumes it: "\<forall>xs. set (it xs) = set xs"
  shows "sorted_by_len_desc (map Str [''grew'', ''growth'', ''grow''])
           = Str ''growth'' # map Str (filter (\<lambda>t. t \<noteq> ''growth'') [''grew'', ''growth'', ''grow''])
       \<and> conjugations_call it (map Str [''grew'', ''growth'', ''grow'']) []
           = ([Str ''growth'', Str ''grew''], [(''grow'', ''growth'')])"
proof -
  have order: "sorted_by_len_desc (map Str [''grew'', ''growth'', ''grow'']) = [Str ''growth'', Str ''grew'', Str ''grow'']"
    by (simp add: sorted_by_len_desc_def)
  have "conjugations_call it (map Str [''grew'', ''growth'', ''grow'']) []
      = conjugations_loop it [Str ''growth'', Str ''grew'', Str ''grow''] [] [] []"
    by (simp only: conjugations_call.simps order)
  also have "\<dots> = ([Str ''growth'', Str ''grew''], [] @ [(''grow'', ''growth'')])"
    by (rule loop_growth_grew_grow [OF it])
  finally have call: "conjugations_call it (map Str [''grew'', ''growth'', ''grow'']) []
      = ([Str ''growth'', Str ''grew''], [] @ [(''grow'', ''growth'')])" .
  from order call show ?thesis by (simp del: conjugations_call.simps)
qed

text \<open>
  Claim C2, as amended. For a group made of the tags "grow", "growth" and "grew", in any
  order, "pairs" mode processes "growth" first and then the two four-letter tags in the
  order they were given, and returns exactly the one pair ("grow", "growth"): "grew" is
  not a leading-substring match of "growth" (\<^verbatim>\<open>"growth"[:4]\<close> is "grow") and is accepted.
  The strict merge of that pair removes the "grow" column only, so "growth" and "grew"
  both remain. The iteration order of the set is arbitrary, as long as it visits exactly
  the set's elements.
\<close>

theorem grow_growth_grew_pairs:
  assumes it: "\<forall>xs. set (it xs) = set xs"
    and ts: "ts \<in> {[''grow'', ''growth'', ''grew''],
                   [''grow'', ''grew'', ''growth''],
                   [''growth'', ''grow'', ''grew''],
                   [''growth'', ''grew'', ''grow''],
                   [''grew'', ''grow'', ''growth''],
                   [''grew'', ''growth'', ''grow'']}"
  shows "sorted_by_len_desc (map Str ts) = Str ''growth'' # map Str (filter (\<lambda>t. t \<noteq> ''growth'') ts)
    \<and> deduplicate_tag_conjugations it (map Str ts) ''pairs'' None
        = (Pairs [(''grow'', ''growth'')], [(''grow'', ''growth'')])
    \<and> (\<forall>df. set ts \<subseteq> set (columns df) \<longrightarrow>
          columns (deduplicate_dataframe df [(''grow'', ''growth'')] ''strict'')
            = filter (\<lambda>c. c \<noteq> ''grow'') (columns df))"
proof -
  from ts have "ts = [''grow'', ''growth'', ''grew''] \<or> ts = [''grow'', ''grew'', ''growth''] \<or> ts = [''growth'', ''grow'', ''grew''] \<or> ts = [''growth'', ''grew'', ''grow''] \<or> ts = [''grew'', ''grow'', ''growth''] \<or> ts = [''grew'', ''growth'', ''grow'']"
    by simp
  then have both: "sorted_by_len_desc (map Str ts) = Str ''growth'' # map Str (filter (\<lambda>t. t \<noteq> ''growth'') ts)
       \<and> conjugations_call it (map Str ts) [] = ([Str ''growth'', Str ''grew''], [(''grow'', ''growth'')])"
  proof (elim disjE)
    assume t: "ts = [''grow'', ''growth'', ''grew'']"
    show ?thesis unfolding t by (rule grow_order_1 [OF it])
  next
    assume t: "ts = [''grow'', ''grew'', ''growth'']"
    show ?thesis unfolding t by (rule grow_order_2 [OF it])
  next
    assume t: "ts = [''growth'', ''grow'', ''grew'']"
    show ?thesis unfolding t by (rule grow_order_3 [OF it])
  next
    assume t: "ts = [''growth'', ''grew'', ''grow'']"
    show ?thesis unfolding t by (rule grow_order_4 [OF it])
  next
    assume t: "ts = [''grew'', ''grow'', ''growth'']"
    show ?thesis unfolding t by (rule grow_order_5 [OF it])
  next
    assume t: "ts = [''grew'', ''growth'', ''grow'']"
    show ?thesis unfolding t by (rule grow_order_6 [OF it])
  qed
  then have call: "conjugations_call it (map Str ts) [] = ([Str ''growth'', Str ''grew''], [(''grow'', ''growth'')])"
    by (rule conjunct2)
  have pairs: "deduplicate_tag_conjugations it (map Str ts) ''pairs'' None
        = (Pairs [(''grow'', ''growth'')], [(''grow'', ''growth'')])"
    by (simp add: deduplicate_tag_conjugations_def call del: conjugations_call.simps)
  have members: "''grow'' \<in> set ts \<and> ''growth'' \<in> set ts"
    using ts by (elim insertE emptyE) simp_all
  have merge: "\<forall>df. set ts \<subseteq> set (columns df) \<longrightarrow>
          columns (deduplicate_dataframe df [(''grow'', ''growth'')] ''strict'')
            = filter (\<lambda>c. c \<noteq> ''grow'') (columns df)"
  proof (intro allI impI)
    fix df assume sub: "set ts \<subseteq> set (columns df)"
    from members sub have g: "''grow'' \<in> set (columns df)" and gth: "''growth'' \<in> set (columns df)"
      by blast+
    then show "columns (deduplicate_dataframe df [(''grow'', ''growth'')] ''strict'')
            = filter (\<lambda>c. c \<noteq> ''grow'') (columns df)"
      by (simp add: deduplicate_dataframe_single merge_pair_strict columns_drop_columns columns_set_column)
  qed
  from both pairs merge show ?thesis by blast
qed


text \<open>The claim as stated fails: the pair ("grew", "growth") is not returned.\<close>

theorem grew_is_not_a_conjugation_of_growth:
  "fst (deduplicate_tag_conjugations (\<lambda>xs. xs) (map Str [''grow'', ''growth'', ''grew'']) ''pairs'' None)
     \<noteq> Pairs [(''grow'', ''growth''), (''grew'', ''growth'')]"
proof -
  have "deduplicate_tag_conjugations (\<lambda>xs. xs) (map Str [''grow'', ''growth'', ''grew'']) ''pairs'' None
      = (Pairs [(''grow'', ''growth'')], [(''grow'', ''growth'')])"
    by code_simp
  then show ?thesis by simp
qed

text \<open>The amended claim at the order the claim names its tags in, on a matrix of three
  documents.\<close>

theorem grow_growth_grew_example:
  "deduplicate_tag_conjugations (\<lambda>xs. xs) (map Str [''grow'', ''growth'', ''grew'']) ''pairs'' None
     = (Pairs [(''grow'', ''growth'')], [(''grow'', ''growth'')])
   \<and> columns (deduplicate_dataframe
        [(''grow'', [1, 1, 0]), (''growth'', [1, 1, 1]), (''grew'', [0, 1, 1])]
        [(''grow'', ''growth'')] ''strict'') = [''growth'', ''grew'']"
proof -
  let ?df = "[(''grow'', [1, 1, 0]), (''growth'', [1, 1, 1]), (''grew'', [0, 1, 1])] :: dataframe"
  let ?ts = "[''grow'', ''growth'', ''grew'']"
  have it: "\<forall>xs :: string list. set xs = set xs" by simp
  have ts: "?ts \<in> {[''grow'', ''growth'', ''grew''], [''grow'', ''grew'', ''growth''],
                   [''growth'', ''grow'', ''grew''], [''growth'', ''grew'', ''grow''],
                   [''grew'', ''grow'', ''growth''], [''grew'', ''growth'', ''grow'']}"
    by simp
  note t = grow_growth_grew_pairs [of "\<lambda>xs. xs" ?ts, OF it ts]
  have sub: "set ?ts \<subseteq> set (columns ?df)" by (simp add: columns_def)
  from t have one: "deduplicate_tag_conjugations (\<lambda>xs. xs) (map Str ?ts) ''pairs'' None
     = (Pairs [(''grow'', ''growth'')], [(''grow'', ''growth'')])"
    by (rule conjunct1 [OF conjunct2])
  from t have "\<forall>df. set ?ts \<subseteq> set (columns df) \<longrightarrow>
          columns (deduplicate_dataframe df [(''grow'', ''growth'')] ''strict'')
            = filter (\<lambda>c. c \<noteq> ''grow'') (columns df)"
    by (rule conjunct2 [OF conjunct2])
  with sub have "columns (deduplicate_dataframe ?df [(''grow'', ''growth'')] ''strict'')
            = filter (\<lambda>c. c \<noteq> ''grow'') (columns ?df)"
    by blast
  then have two: "columns (deduplicate_dataframe ?df [(''grow'', ''growth'')] ''strict'') = [''growth'', ''grew'']"
    by (simp add: columns_def)
  from one two show ?thesis by (rule conjI)
qed

section \<open>Properties of the component counts\<close>

lemma length_cumsum_from: "length (cumsum_from a xs) = length xs"
  by (induction xs arbitrary: a) auto

lemma cumsum_from_lower:
  "\<forall>x\<in>set xs. 0 \<le> x \<Longrightarrow> z \<in> set (cumsum_from a xs) \<Longrightarrow> a \<le> z"
proof (induction xs arbitrary: a)
  case Nil
  then show ?case by simp
next
  case (Cons x xs)
  from Cons.prems(1) have x: "0 \<le> x" and rest: "\<forall>y\<in>set xs. 0 \<le> y" by simp_all
  from Cons.prems(2) have "z = a + x \<or> z \<in> set (cumsum_from (a + x) xs)" by simp
  then show ?case
  proof
    assume "z = a + x" with x show ?thesis by simp
  next
    assume "z \<in> set (cumsum_from (a + x) xs)"
    with Cons.IH [OF rest] have "a + x \<le> z" by blast
    with x show ?thesis by simp
  qed
qed

lemma sorted_cumsum_from:
  "\<forall>x\<in>set xs. 0 \<le> x \<Longrightarrow> sorted (cumsum_from a xs)"
proof (induction xs arbitrary: a)
  case Nil
  then show ?case by simp
next
  case (Cons x xs)
  from Cons.prems have rest: "\<forall>y\<in>set xs. 0 \<le> y" by simp
  have "\<forall>z\<in>set (cumsum_from (a + x) xs). a + x \<le> z"
    using cumsum_from_lower [OF rest] by blast
  with Cons.IH [OF rest] show ?case by simp
qed

lemma last_cumsum_from:
  "xs \<noteq> [] \<Longrightarrow> cumsum_from a xs ! (length xs - 1) = a + sum_list xs"
proof (induction xs arbitrary: a)
  case Nil
  then show ?case by simp
next
  case (Cons x xs)
  show ?case
  proof (cases "xs = []")
    case True
    then show ?thesis by simp
  next
    case False
    then have "cumsum_from (a + x) xs ! (length xs - 1) = a + x + sum_list xs"
      by (rule Cons.IH)
    with False show ?thesis by (simp add: nth_Cons' add.assoc)
  qed
qed

lemma first_true_props:
  "True \<in> set bs \<Longrightarrow> first_true bs < length bs \<and> bs ! first_true bs \<and> (\<forall>j < first_true bs. \<not> bs ! j)"
proof (induction bs)
  case Nil
  then show ?case by simp
next
  case (Cons b bs)
  show ?case
  proof (cases b)
    case True
    then show ?thesis by simp
  next
    case False
    with Cons.prems have "True \<in> set bs" by simp
    from Cons.IH [OF this] False show ?thesis
      by (auto simp: nth_Cons split: nat.splits)
  qed
qed


lemma num_components_least:
  assumes ne: "evr \<noteq> []" and reach: "t \<le> sum_list evr"
  shows "\<exists>k. num_components_for_variance t evr = Inr k \<and> 1 \<le> k \<and> k \<le> length evr
           \<and> t \<le> cumsum evr ! (k - 1)
           \<and> (\<forall>j. 1 \<le> j \<and> j < k \<longrightarrow> cumsum evr ! (j - 1) < t)"
proof -
  let ?bs = "map (\<lambda>c. t \<le> c) (cumsum evr)"
  let ?i = "first_true ?bs"
  have len: "length ?bs = length evr" by (simp add: cumsum_def length_cumsum_from)
  have lenc: "length (cumsum evr) = length evr" by (simp add: cumsum_def length_cumsum_from)
  from ne have pos: "length evr - 1 < length evr" by (cases evr) simp_all
  have "cumsum evr ! (length evr - 1) = sum_list evr"
    using last_cumsum_from [OF ne, of 0] by (simp add: cumsum_def)
  with reach pos have "?bs ! (length evr - 1)" by (simp add: lenc)
  with pos len have "True \<in> set ?bs"
    by (metis nth_mem)
  then have ft: "?i < length ?bs \<and> ?bs ! ?i \<and> (\<forall>j < ?i. \<not> ?bs ! j)"
    by (rule first_true_props)
  from \<open>True \<in> set ?bs\<close> have arg: "np_argmax ?bs = Inr ?i"
    by (auto simp: np_argmax_def)
  have k: "num_components_for_variance t evr = Inr (?i + 1)"
    by (simp add: num_components_for_variance_def Let_def arg)
  from ft len have i_lt: "?i < length evr" by simp
  with ft have at: "t \<le> cumsum evr ! ?i" by (simp add: lenc)
  have before: "\<forall>j. 1 \<le> j \<and> j < ?i + 1 \<longrightarrow> cumsum evr ! (j - 1) < t"
  proof (intro allI impI)
    fix j assume j: "1 \<le> j \<and> j < ?i + 1"
    then have jm: "j - 1 < ?i" by arith
    with ft have "\<not> ?bs ! (j - 1)" by blast
    moreover from jm i_lt have "j - 1 < length (cumsum evr)" by (simp add: lenc)
    ultimately show "cumsum evr ! (j - 1) < t" by simp
  qed
  from k i_lt at before show ?thesis by auto
qed

text \<open>
  Claim C9. For explained-variance ratios that are non-negative and whose total reaches
  0.95 (a PCA's ratios sum to 1), the cumulative vector is non-decreasing, and each of
  the two counts is the smallest 1-indexed number of components whose cumulative variance
  reaches its threshold: the count is between 1 and the number of components, the
  cumulative variance at the count is at least the threshold, and at every smaller count
  it is below the threshold.
\<close>

theorem component_counts_are_least:
  assumes ne: "evr \<noteq> []"
    and nonneg: "\<forall>x\<in>set evr. 0 \<le> x"
    and total: "95 / 100 \<le> sum_list evr"
  shows "sorted (cumsum evr)
    \<and> (\<exists>k80. num_components_for_80_variance evr = Inr k80 \<and> 1 \<le> k80 \<and> k80 \<le> length evr
           \<and> 80 / 100 \<le> cumsum evr ! (k80 - 1)
           \<and> (\<forall>j. 1 \<le> j \<and> j < k80 \<longrightarrow> cumsum evr ! (j - 1) < 80 / 100))
    \<and> (\<exists>k95. num_components_for_95_variance evr = Inr k95 \<and> 1 \<le> k95 \<and> k95 \<le> length evr
           \<and> 95 / 100 \<le> cumsum evr ! (k95 - 1)
           \<and> (\<forall>j. 1 \<le> j \<and> j < k95 \<longrightarrow> cumsum evr ! (j - 1) < 95 / 100))"
proof -
  have mono: "sorted (cumsum evr)"
    using nonneg by (simp add: cumsum_def sorted_cumsum_from)
  from total have total80: "80 / 100 \<le> sum_list evr" by simp
  note k80 = num_components_least [OF ne total80, folded num_components_for_80_variance_def]
  note k95 = num_components_least [OF ne total, folded num_components_for_95_variance_def]
  from mono k80 k95 show ?thesis by (intro conjI)
qed

text \<open>Ratios 0.5, 0.3, 0.2: the cumulative vector is 0.5, 0.8, 1, so two components reach
  80 percent and three reach 95 percent.\<close>

theorem component_counts_example:
  "cumsum [1 / 2, 3 / 10, 1 / 5] = [1 / 2, 4 / 5, 1]
   \<and> num_components_for_80_variance [1 / 2, 3 / 10, 1 / 5] = Inr 2
   \<and> num_components_for_95_variance [1 / 2, 3 / 10, 1 / 5] = Inr 3"
proof -
  let ?evr = "[1 / 2, 3 / 10, 1 / 5] :: real list"
  have ne: "?evr \<noteq> []" by simp
  have nonneg: "\<forall>x\<in>set ?evr. 0 \<le> x" by simp
  have total: "95 / 100 \<le> sum_list ?evr" by simp
  have cs: "cumsum ?evr = [1 / 2, 4 / 5, 1]" by (simp add: cumsum_def)
  note t = component_counts_are_least [OF ne nonneg total]
  from t obtain k80 where a: "num_components_for_80_variance ?evr = Inr k80"
    and a1: "1 \<le> k80" and a2: "k80 \<le> length ?evr"
    and a3: "80 / 100 \<le> cumsum ?evr ! (k80 - 1)"
    and a4: "\<forall>j. 1 \<le> j \<and> j < k80 \<longrightarrow> cumsum ?evr ! (j - 1) < 80 / 100"
    by blast
  from t obtain k95 where b: "num_components_for_95_variance ?evr = Inr k95"
    and b1: "1 \<le> k95" and b2: "k95 \<le> length ?evr"
    and b3: "95 / 100 \<le> cumsum ?evr ! (k95 - 1)"
    by blast
  from a1 a2 have "k80 = 1 \<or> k80 = 2 \<or> k80 = 3" by (simp; arith)
  then have k80: "k80 = 2"
  proof (elim disjE)
    assume "k80 = 1" with a3 show ?thesis by (simp add: cs)
  next
    assume "k80 = 2" then show ?thesis .
  next
    assume "k80 = 3"
    with a4 have "cumsum ?evr ! (2 - 1) < 80 / 100" by (intro a4 [rule_format]) simp
    then show ?thesis by (simp add: cs)
  qed
  from b1 b2 have "k95 = 1 \<or> k95 = 2 \<or> k95 = 3" by (simp; arith)
  then have k95: "k95 = 3"
  proof (elim disjE)
    assume "k95 = 1" with b3 show ?thesis by (simp add: cs)
  next
    assume "k95 = 2" with b3 show ?thesis by (simp add: cs)
  next
    assume "k95 = 3" then show ?thesis .
  qed
  from cs a b k80 k95 show ?thesis by simp
qed

section \<open>The orchestrator at concrete inputs\<close>

text \<open>
  Claim C1 says that the lenient merge of Phase 2 is applied to the matrix the strict
  merge of Phase 1 produced. The source computes that matrix (\<^verbatim>\<open>matrix_deduplicated\<close>) and
  derives the potential duplicates from it, but then calls
  \<^verbatim>\<open>deduplicate_dataframe(matrix, potential_duplicates, "lenient")\<close> on the matrix from
  before Phase 1, so the strict merges are lost. On three documents with the tags "grow",
  "growth" and "zebra", where the clustering puts "grow" and "growth" in one group:
  Phase 1 finds the pair ("grow", "growth"), its strict merge gives the matrix with the
  columns "growth" and "zebra", and yet the function returns the input matrix, "grow"
  column included and "growth" without the values merged into it.
\<close>

theorem lenient_phase_discards_strict_merge:
  "pairs_of (fst (calculate_tag_similarity columns
       (\<lambda>names (t :: real). map (\<lambda>n. if n \<in> {''grow'', ''growth''} then 0 else 1 :: nat) names)
       (\<lambda>xs. xs)
       [(''grow'', [1, 1, 0]), (''growth'', [0, 1, 0]), (''zebra'', [0, 0, 1])] ''pairs'' (6 / 10)))
     = [(''grow'', ''growth'')]
   \<and> deduplicate_dataframe
       [(''grow'', [1, 1, 0]), (''growth'', [0, 1, 0]), (''zebra'', [0, 0, 1])]
       [(''grow'', ''growth'')] ''strict''
     = [(''growth'', [1, 1, 0]), (''zebra'', [0, 0, 1])]
   \<and> merge_similar_tags_from_dataframe columns
       (\<lambda>names (t :: real). map (\<lambda>n. if n \<in> {''grow'', ''growth''} then 0 else 1 :: nat) names)
       (\<lambda>xs. xs)
       [(''grow'', [1, 1, 0]), (''growth'', [0, 1, 0]), (''zebra'', [0, 0, 1])] (6 / 10) False []
     = Inr ([(''grow'', [1, 1, 0]), (''growth'', [0, 1, 0]), (''zebra'', [0, 0, 1])], [], [])"
  by code_simp

text \<open>
  Claim C4 says that in manual resolution an invalid answer offers the same pair again and
  that the skip answer "n" goes on to the next pair. In the source "n" is \<^verbatim>\<open>break\<close>: with
  the answers "n", "y" the second pair is never offered and the second answer is never
  read. After an invalid answer the message is shown and the matrix is unchanged, but the
  loop goes on: with the answers "x", "y" the second prompt is for the second pair, which
  is merged, and the first pair is not offered again.
\<close>

theorem manual_skip_stops_and_invalid_advances:
  "manual_deduplication [(''a'', ''b''), (''c'', ''d'')]
       [(''a'', [1, 0]), (''b'', [0, 1]), (''c'', [1, 1]), (''d'', [0, 0])] [''n'', ''y''] []
     = Inr ([(''a'', [1, 0]), (''b'', [0, 1]), (''c'', [1, 1]), (''d'', [0, 0])],
            [''y''], [Prompt ''a'' ''b''])
   \<and> manual_deduplication [(''a'', ''b''), (''c'', ''d'')]
       [(''a'', [1, 0]), (''b'', [0, 1]), (''c'', [1, 1]), (''d'', [0, 0])] [''x'', ''y''] []
     = Inr ([(''a'', [1, 0]), (''b'', [0, 1]), (''d'', [1, 1])],
            [], [Prompt ''a'' ''b'', Input_invalid, Prompt ''c'' ''d'', Merged ''c'' ''d''])"
  by code_simp

end
